theory Spec2Isabelle
  imports
    Complex_Main
    "HOL-Library.Multiset"
    "HOL-Library.Char_ord"
    "HOL-Library.List_Lexorder"
begin

section \<open>Python strings\<close>

text \<open>
  A Python \<open>str\<close> is a sequence of code points and \<open>len\<close> counts code points. The
  model reads a \<^typ>\<open>char\<close> as one code point in the range 0..255 (ASCII and
  Latin-1), so \<^const>\<open>length\<close> is \<open>len\<close>. The three character classes below are
  the ones CPython applies to a \<open>str\<close> in that range. Comparison of strings
  (\<open><\<close> on \<^typ>\<open>string\<close>) is lexicographic by code point, as in Python.
\<close>

definition code_point :: "char \<Rightarrow> nat" where
  "code_point c = of_char c"

text \<open>\<open>str.isspace\<close>, also the class \<open>\s\<close> of \<open>re\<close> and what \<open>strip\<close> removes.\<close>

definition is_space :: "char \<Rightarrow> bool" where
  "is_space c =
     (let n = code_point c
      in (9 \<le> n \<and> n \<le> 13) \<or> (28 \<le> n \<and> n \<le> 32) \<or> n = 133 \<or> n = 160)"

text \<open>The class \<open>\w\<close> of \<open>re\<close>: alphanumeric code points and the underscore.\<close>

definition is_word :: "char \<Rightarrow> bool" where
  "is_word c =
     (let n = code_point c
      in (48 \<le> n \<and> n \<le> 57) \<or> (65 \<le> n \<and> n \<le> 90) \<or> n = 95 \<or> (97 \<le> n \<and> n \<le> 122)
         \<or> n = 170 \<or> n = 178 \<or> n = 179 \<or> n = 181 \<or> n = 185 \<or> n = 186
         \<or> (188 \<le> n \<and> n \<le> 190) \<or> (192 \<le> n \<and> n \<le> 214)
         \<or> (216 \<le> n \<and> n \<le> 246) \<or> 248 \<le> n)"

definition lower_char :: "char \<Rightarrow> char" where
  "lower_char c =
     (let n = code_point c
      in if (65 \<le> n \<and> n \<le> 90) \<or> (192 \<le> n \<and> n \<le> 214) \<or> (216 \<le> n \<and> n \<le> 222)
         then char_of (n + 32) else c)"

text \<open>\<open>s.lower()\<close>\<close>

definition lower :: "string \<Rightarrow> string" where
  "lower s = map lower_char s"

text \<open>\<open>s.rstrip()\<close> and \<open>s.strip()\<close>\<close>

definition rstrip :: "string \<Rightarrow> string" where
  "rstrip s = rev (dropWhile is_space (rev s))"

definition strip :: "string \<Rightarrow> string" where
  "strip s = rstrip (dropWhile is_space s)"

text \<open>\<open>sep.join(xs)\<close>\<close>

fun join :: "string \<Rightarrow> string list \<Rightarrow> string" where
  "join sep [] = []"
| "join sep [x] = x"
| "join sep (x # y # ys) = x @ sep @ join sep (y # ys)"

text \<open>
  The slice \<open>xs[:n]\<close> for a Python integer \<open>n\<close>: the first \<open>n\<close> elements, and for
  a negative \<open>n\<close> all but the last \<open>-n\<close>.
\<close>

definition slice_to :: "int \<Rightarrow> 'a list \<Rightarrow> 'a list" where
  "slice_to n xs = (if 0 \<le> n then take (nat n) xs else take (length xs - nat (- n)) xs)"

text \<open>
  \<open>xs.sort(key=f, reverse=True)\<close>. CPython reverses the list, sorts it with a stable
  ascending sort and reverses the result, which leaves elements of equal key in their
  input order.
\<close>

definition sort_reverse :: "('a \<Rightarrow> 'k::linorder) \<Rightarrow> 'a list \<Rightarrow> 'a list" where
  "sort_reverse f xs = rev (sort_key f (rev xs))"

section \<open>Tokens and similarity\<close>

text \<open>\<open>WORD_RE.findall(text)\<close> for \<open>WORD_RE = re.compile(r"\w+")\<close>: the maximal runs of
  word characters, left to right.\<close>

function findall_words :: "string \<Rightarrow> string list" where
  "findall_words [] = []"
| "findall_words (c # cs) =
     (if is_word c
      then (c # takeWhile is_word cs) # findall_words (dropWhile is_word cs)
      else findall_words cs)"
  by pat_completeness auto
termination
  by (relation "measure length") (auto simp: less_Suc_eq_le length_dropWhile_le)

definition text_to_tokens :: "string \<Rightarrow> string set" where
  "text_to_tokens text = set (map lower (findall_words text))"

text \<open>
  The quotient of two Python integers is the double nearest to the exact quotient. The
  model keeps the exact quotient: rounding is monotone and fixes 0, 1/2 and 1, so the
  bounds below hold for the double as well; and two quotients of token counts below
  \<open>2^26\<close> that differ are at least one unit in the last place apart, so they compare
  as doubles the way they do here.
\<close>

definition simple_similarity :: "string \<Rightarrow> string \<Rightarrow> real" where
  "simple_similarity a b =
     (let ta = text_to_tokens a; tb = text_to_tokens b
      in if ta = {} \<or> tb = {} then 0
         else real (card (ta \<inter> tb)) / real (card ta + card tb))"

section \<open>Summaries\<close>

text \<open>
  \<open>re.split(r"(?<=[.!?])\s+", s)\<close>: \<open>s\<close> is cut at every run of whitespace that
  follows one of \<open>.\<close>, \<open>!\<close>, \<open>?\<close>; the run is dropped. The first argument holds the
  characters of the current piece, last one first.
\<close>

definition is_stop :: "char \<Rightarrow> bool" where
  "is_stop c = (c = CHR ''.'' \<or> c = CHR ''!'' \<or> c = CHR ''?'')"

function split_after_stop :: "string \<Rightarrow> string \<Rightarrow> string list" where
  "split_after_stop cur [] = [rev cur]"
| "split_after_stop cur (c # cs) =
     (if is_stop c \<and> cs \<noteq> [] \<and> is_space (hd cs)
      then rev (c # cur) # split_after_stop [] (dropWhile is_space cs)
      else split_after_stop (c # cur) cs)"
  by pat_completeness auto
termination
  by (relation "measure (\<lambda>(cur, s). length s)")
     (auto simp: less_Suc_eq_le length_dropWhile_le)

definition split_sentences :: "string \<Rightarrow> string list" where
  "split_sentences s = split_after_stop [] s"

text \<open>The value of \<open>summary\<close> before the length check of \<open>summarize_text\<close>.\<close>

definition first_sentences :: "string \<Rightarrow> string" where
  "first_sentences text = join '' '' (take 3 (split_sentences (strip text)))"

definition summarize_text :: "string \<Rightarrow> int \<Rightarrow> string" where
  "summarize_text text max_chars =
     (if text = [] then []
      else let summary = first_sentences text
           in if int (length summary) > max_chars
              then rstrip (slice_to max_chars summary) @ ''...''
              else summary)"

section \<open>Articles and the summary with context\<close>

text \<open>
  An article is a dictionary with string values. The keys that \<open>parse_entry\<close> fills are
  the fields of \<open>article\<close> (\<open>entry_id\<close> is the key \<open>id\<close>); a record of the history
  has the key \<open>sent_at\<close> too. \<open>build_rag_summary\<close> reads \<open>title\<close> and \<open>summary\<close> only,
  so it takes either kind.
\<close>

record article =
  entry_id :: string
  title :: string
  link :: string
  summary :: string
  published :: string

record hist_record = article +
  sent_at :: string

text \<open>The list \<open>scores\<close> of \<open>build_rag_summary\<close> before and after \<open>scores.sort\<close>.\<close>

definition scores_of ::
  "'a article_scheme \<Rightarrow> 'b article_scheme list \<Rightarrow> (real \<times> 'b article_scheme) list" where
  "scores_of a history =
     (let new_text = title a @ '' '' @ summary a
      in map (\<lambda>h. (simple_similarity new_text (title h @ '' '' @ summary h), h)) history)"

definition ranked ::
  "'a article_scheme \<Rightarrow> 'b article_scheme list \<Rightarrow> (real \<times> 'b article_scheme) list" where
  "ranked a history = sort_reverse fst (scores_of a history)"

text \<open>The list \<open>context\<close> (\<open>ctx\<close> in the Telegram script, where \<open>top_k\<close> is 3).\<close>

definition select_context ::
  "'a article_scheme \<Rightarrow> 'b article_scheme list \<Rightarrow> int \<Rightarrow> 'b article_scheme list" where
  "select_context a history top_k =
     map snd (filter (\<lambda>p. fst p > 0) (slice_to top_k (ranked a history)))"

text \<open>The string \<open>"Related to: " + "; ".join(rel_titles[:2])\<close>.\<close>

definition rel_titles :: "'b article_scheme list \<Rightarrow> string list" where
  "rel_titles ctx = map title (filter (\<lambda>c. title c \<noteq> []) ctx)"

definition related_to :: "'b article_scheme list \<Rightarrow> string" where
  "related_to ctx = ''Related to: '' @ join ''; '' (take 2 (rel_titles ctx))"

text \<open>The second half of \<open>build_rag_summary\<close>, from \<open>base_summary\<close> on.\<close>

definition compose_summary :: "'a article_scheme \<Rightarrow> 'b article_scheme list \<Rightarrow> string" where
  "compose_summary a ctx =
     (let base_summary = summarize_text (summary a) 300
      in if ctx = [] then base_summary
         else if rel_titles ctx \<noteq> []
              \<and> length base_summary + length (related_to ctx) + 3 < 350
         then base_summary @ '' | '' @ related_to ctx
         else base_summary)"

definition build_rag_summary ::
  "'a article_scheme \<Rightarrow> 'b article_scheme list \<Rightarrow> int \<Rightarrow> string" where
  "build_rag_summary a history top_k = compose_summary a (select_context a history top_k)"

section \<open>Feed entries\<close>

text \<open>
  An entry as the feed parser hands it over: each attribute is present or not, which is
  what \<open>getattr\<close> with a default asks.
\<close>

record raw_entry =
  raw_id :: "string option"
  raw_link :: "string option"
  raw_title :: "string option"
  raw_published :: "string option"
  raw_summary :: "string option"
  raw_description :: "string option"

definition getattr :: "string option \<Rightarrow> string \<Rightarrow> string" where
  "getattr v d = (case v of None \<Rightarrow> d | Some s \<Rightarrow> s)"

text \<open>\<open>x or y\<close> for \<open>x\<close> a string or \<open>None\<close>: \<open>x\<close> when it is a non-empty string.\<close>

definition or_else :: "string option \<Rightarrow> string \<Rightarrow> string" where
  "or_else v d = (case v of None \<Rightarrow> d | Some s \<Rightarrow> if s = [] then d else s)"

definition extract_entry_id :: "raw_entry \<Rightarrow> string" where
  "extract_entry_id e =
     or_else (raw_id e)
       (or_else (raw_link e) (getattr (raw_title e) [] @ getattr (raw_published e) []))"

definition parse_entry :: "raw_entry \<Rightarrow> article" where
  "parse_entry e =
     \<lparr> entry_id = extract_entry_id e,
       title = getattr (raw_title e) [],
       link = getattr (raw_link e) [],
       summary = or_else (raw_summary e) (getattr (raw_description e) []),
       published = getattr (raw_published e) [] \<rparr>"

section \<open>JSON values\<close>

text \<open>
  What \<open>json.load\<close> returns and \<open>json.dump\<close> writes: \<open>None\<close>, a truth value, an
  integer, a float (by its exact value; the model has no \<open>NaN\<close> and no infinity), a
  string, a list, or a dictionary with strings as keys. A dictionary is the list of its
  items in insertion order, with one item for a key; a lookup takes the first item of
  the key.
\<close>

datatype json =
    JNull
  | JBool bool
  | JInt int
  | JFloat rat
  | JStr string
  | JArr "json list"
  | JObj "(string \<times> json) list"

text \<open>\<open>d.get(k, default)\<close> and \<open>d[k] = v\<close> for a dictionary \<open>d\<close>.\<close>

definition dict_get :: "(string \<times> json) list \<Rightarrow> string \<Rightarrow> json \<Rightarrow> json" where
  "dict_get kvs k d = (case map_of kvs k of None \<Rightarrow> d | Some v \<Rightarrow> v)"

fun dict_set :: "(string \<times> json) list \<Rightarrow> string \<Rightarrow> json \<Rightarrow> (string \<times> json) list" where
  "dict_set [] k v = [(k, v)]"
| "dict_set (kv # kvs) k v = (if fst kv = k then (k, v) # kvs else kv # dict_set kvs k v)"

text \<open>
  The exceptions a run can end with: from \<open>open\<close> and \<open>json.load\<close> in \<open>load_state\<close>,
  from a value of the state that is not of the type the code uses it at, from
  \<open>requests.post\<close>, and from \<open>open\<close> in \<open>save_state\<close>.
\<close>

datatype error =
    OSError
  | UnicodeDecodeError
  | JSONDecodeError
  | AttributeError
  | TypeError
  | RequestException

text \<open>
  What a \<open>for\<close> loop or \<open>set(v)\<close> walks through: the elements of a list, the characters of
  a string, the keys of a dictionary; other values are not iterable.
\<close>

definition iterate :: "json \<Rightarrow> error + json list" where
  "iterate v =
     (case v of
        JArr xs \<Rightarrow> Inr xs
      | JStr s \<Rightarrow> Inr (map (\<lambda>c. JStr [c]) s)
      | JObj kvs \<Rightarrow> Inr (map (\<lambda>kv. JStr (fst kv)) kvs)
      | _ \<Rightarrow> Inl TypeError)"

text \<open>
  A Python set of values loaded from JSON. Lists and dictionaries cannot be elements.
  Equality is Python's: numbers and truth values are compared by value, everything else
  with its own kind. A set has no order of its own; the model keeps the elements as a
  list in the order they were added, and \<open>list(s)\<close> is that list.
\<close>

definition hashable :: "json \<Rightarrow> bool" where
  "hashable v = (case v of JArr xs \<Rightarrow> False | JObj kvs \<Rightarrow> False | _ \<Rightarrow> True)"

fun number :: "json \<Rightarrow> rat option" where
  "number (JBool b) = Some (if b then 1 else 0)"
| "number (JInt i) = Some (of_int i)"
| "number (JFloat r) = Some r"
| "number v = None"

definition py_eq :: "json \<Rightarrow> json \<Rightarrow> bool" where
  "py_eq a b = (case number a of Some x \<Rightarrow> number b = Some x | None \<Rightarrow> number b = None \<and> a = b)"

definition set_contains :: "json list \<Rightarrow> json \<Rightarrow> bool" where
  "set_contains s x = list_ex (py_eq x) s"

definition set_add :: "json \<Rightarrow> json list \<Rightarrow> json list" where
  "set_add x s = (if set_contains s x then s else s @ [x])"

definition py_set :: "json \<Rightarrow> error + json list" where
  "py_set v =
     (case iterate v of
        Inl e \<Rightarrow> Inl e
      | Inr xs \<Rightarrow> if list_all hashable xs then Inr (foldl (\<lambda>s x. set_add x s) [] xs)
                 else Inl TypeError)"

text \<open>\<open>xs.append(x)\<close>: only a list has the method.\<close>

definition list_append :: "json \<Rightarrow> json \<Rightarrow> error + json" where
  "list_append v x = (case v of JArr xs \<Rightarrow> Inr (JArr (xs @ [x])) | _ \<Rightarrow> Inl AttributeError)"

section \<open>The state file\<close>

text \<open>
  What is at the path of the state file: nothing; a file that \<open>open\<close> refuses; a file
  whose bytes are not UTF-8; a file whose text is not JSON; or the text of a JSON value,
  which need not be a ledger.
\<close>

datatype disk = Absent | Unopenable | Undecodable | Not_json | Json json

definition empty_state :: json where
  "empty_state = JObj [(''seen_ids'', JArr []), (''articles'', JArr [])]"

fun load_state :: "disk \<Rightarrow> error + json" where
  "load_state Absent = Inr empty_state"
| "load_state Unopenable = Inl OSError"
| "load_state Undecodable = Inl UnicodeDecodeError"
| "load_state Not_json = Inl JSONDecodeError"
| "load_state (Json v) = Inr v"

text \<open>
  The first two lines of a run after the load: \<open>state.get\<close> needs a dictionary, and
  \<open>set\<close> something to walk through whose elements can be in a set. The result is the
  dictionary, \<open>seen_ids\<close> and \<open>history\<close>.
\<close>

definition read_state :: "json \<Rightarrow> error + (string \<times> json) list \<times> json list \<times> json" where
  "read_state state =
     (case state of
        JObj kvs \<Rightarrow>
          (case py_set (dict_get kvs ''seen_ids'' (JArr [])) of
             Inl e \<Rightarrow> Inl e
           | Inr seen_ids \<Rightarrow> Inr (kvs, seen_ids, dict_get kvs ''articles'' (JArr [])))
      | _ \<Rightarrow> Inl AttributeError)"

section \<open>The history as context\<close>

text \<open>
  \<open>build_rag_summary\<close> walks through the history and, for each element \<open>h\<close>, computes
  \<open>h.get("title", "") + " " + h.get("summary", "")\<close>: \<open>h\<close> must be a dictionary and both
  values strings. The record \<open>as_record\<close> is the element as the function reads it; of its
  fields only \<open>title\<close> and \<open>summary\<close> are read.
\<close>

definition text_of :: "json \<Rightarrow> string" where
  "text_of v = (case v of JStr s \<Rightarrow> s | _ \<Rightarrow> [])"

definition is_str :: "json \<Rightarrow> bool" where
  "is_str v = (case v of JStr s \<Rightarrow> True | _ \<Rightarrow> False)"

definition as_record :: "(string \<times> json) list \<Rightarrow> hist_record" where
  "as_record kvs =
     \<lparr> entry_id = text_of (dict_get kvs ''id'' (JStr [])),
       title = text_of (dict_get kvs ''title'' (JStr [])),
       link = text_of (dict_get kvs ''link'' (JStr [])),
       summary = text_of (dict_get kvs ''summary'' (JStr [])),
       published = text_of (dict_get kvs ''published'' (JStr [])),
       sent_at = text_of (dict_get kvs ''sent_at'' (JStr [])) \<rparr>"

definition context_entry :: "json \<Rightarrow> error + hist_record" where
  "context_entry h =
     (case h of
        JObj kvs \<Rightarrow>
          if is_str (dict_get kvs ''title'' (JStr [])) \<and> is_str (dict_get kvs ''summary'' (JStr []))
          then Inr (as_record kvs) else Inl TypeError
      | _ \<Rightarrow> Inl AttributeError)"

fun read_context :: "json list \<Rightarrow> error + hist_record list" where
  "read_context [] = Inr []"
| "read_context (h # hs) =
     (case context_entry h of
        Inl e \<Rightarrow> Inl e
      | Inr r \<Rightarrow> (case read_context hs of Inl e \<Rightarrow> Inl e | Inr rs \<Rightarrow> Inr (r # rs)))"

section \<open>One run\<close>

text \<open>
  What a run does to the world, in order: a line on the console (without its final
  newline), a call of \<open>requests.post\<close> with a message, the state written to the state
  file.
\<close>

datatype effect = Print string | Post string | Save json

definition posts :: "effect list \<Rightarrow> string list" where
  "posts out = concat (map (\<lambda>e. case e of Post m \<Rightarrow> [m] | _ \<Rightarrow> []) out)"


text \<open>
  A call of \<open>requests.post\<close> raises, or it returns the answer of the Telegram API with
  \<open>resp.ok\<close> and \<open>resp.text\<close>.
\<close>

datatype response = Response (resp_ok: bool) (resp_text: string)

datatype post_result = Post_raises | Post_returns response

text \<open>
  What a run finds around it: the entries each feed of \<open>RSS_FEEDS\<close> yields,
  \<open>MAX_TELEGRAM_MESSAGES_PER_RUN\<close>, what the \<open>k\<close>-th call of \<open>requests.post\<close> of the run
  does with its message, the clock at the \<open>k\<close>-th record, and whether
  \<open>open(STATE_FILE, "w")\<close> in \<open>save_state\<close> succeeds (when it does not, it raises and
  the file stays as it was; when it does, the state is written in full).
\<close>

record env =
  rss_feeds :: "(string \<times> raw_entry list) list"
  max_messages :: int
  telegram :: "nat \<Rightarrow> string \<Rightarrow> post_result"
  utcnow :: "nat \<Rightarrow> string"
  writable :: bool

definition fetch_new_articles :: "(string \<times> raw_entry list) list \<Rightarrow> article list" where
  "fetch_new_articles feeds = concat (map (\<lambda>(url, entries). map parse_entry entries) feeds)"

definition fetch_output :: "(string \<times> raw_entry list) list \<Rightarrow> effect list" where
  "fetch_output feeds = map (\<lambda>(url, entries). Print (''Fetching: '' @ url)) feeds"

text \<open>The exception \<open>send_telegram_message\<close> ends with, if any, and its effects.\<close>

definition send_telegram_message :: "env \<Rightarrow> nat \<Rightarrow> string \<Rightarrow> error option \<times> effect list" where
  "send_telegram_message env k msg =
     (case telegram env k msg of
        Post_raises \<Rightarrow> (Some RequestException, [Post msg])
      | Post_returns resp \<Rightarrow>
          (None,
           Post msg #
           (if resp_ok resp then [] else [Print (''Failed to send message: '' @ resp_text resp)])))"

definition newline :: string where
  "newline = [char_of (10 :: nat)]"

definition format_message :: "string \<Rightarrow> string \<Rightarrow> string \<Rightarrow> string" where
  "format_message t rag l =
     join (newline @ newline)
       ((if t \<noteq> [] then [''Title: '' @ t] else [])
        @ (if rag \<noteq> [] then [''Summary: '' @ rag] else [])
        @ (if l \<noteq> [] then [''Link: '' @ l] else []))"

text \<open>\<open>str(n)\<close> for a natural number.\<close>

function str_nat :: "nat \<Rightarrow> string" where
  "str_nat n =
     (if n < 10 then [char_of (48 + n)] else str_nat (n div 10) @ [char_of (48 + n mod 10)])"
  by pat_completeness auto
termination
  by (relation "measure id") auto

text \<open>The variables of the loop, and the effects of the run so far.\<close>

record run_state =
  seen :: "json list"
  history :: json
  count_sent :: nat
  trace :: "effect list"

text \<open>
  The body of the loop: the exception it ends with, if any, and the variables as it
  leaves them.
\<close>

definition deliver_one :: "env \<Rightarrow> article \<Rightarrow> run_state \<Rightarrow> error option \<times> run_state" where
  "deliver_one env a st =
     (case iterate (history st) of
        Inl e \<Rightarrow> (Some e, st)
      | Inr hs \<Rightarrow>
          (case read_context hs of
             Inl e \<Rightarrow> (Some e, st)
           | Inr ctx \<Rightarrow>
               let rag_summary = build_rag_summary a ctx 3;
                   t = strip (title a);
                   l = strip (link a);
                   message = format_message t rag_summary l;
                   sent = send_telegram_message env (count_sent st) message;
                   st1 = st\<lparr> trace := trace st
                           @ [Print (''Sending:'' @ newline @ '' '' @ message @ '' '' @ newline @ ''---'')]
                           @ snd sent \<rparr>
               in case fst sent of
                    Some e \<Rightarrow> (Some e, st1)
                  | None \<Rightarrow>
                      let st2 = st1\<lparr> seen := set_add (JStr (entry_id a)) (seen st) \<rparr>
                      in case list_append (history st)
                                (JObj [(''id'', JStr (entry_id a)),
                                       (''title'', JStr t),
                                       (''summary'', JStr rag_summary),
                                       (''link'', JStr l),
                                       (''published'', JStr (published a)),
                                       (''sent_at'', JStr (utcnow env (count_sent st)))]) of
                           Inl e \<Rightarrow> (Some e, st2)
                         | Inr h \<Rightarrow> (None, st2\<lparr> history := h, count_sent := count_sent st + 1 \<rparr>)))"

fun deliver_loop :: "env \<Rightarrow> article list \<Rightarrow> run_state \<Rightarrow> error option \<times> run_state" where
  "deliver_loop env [] st = (None, st)"
| "deliver_loop env (a # rest) st =
     (if int (count_sent st) \<ge> max_messages env then (None, st)
      else case deliver_one env a st of
             (Some e, st') \<Rightarrow> (Some e, st')
           | (None, st') \<Rightarrow> deliver_loop env rest st')"

definition unseen_of :: "env \<Rightarrow> json list \<Rightarrow> article list" where
  "unseen_of env seen_ids =
     filter (\<lambda>a. \<not> set_contains seen_ids (JStr (entry_id a))) (fetch_new_articles (rss_feeds env))"

definition run_loop :: "env \<Rightarrow> json list \<Rightarrow> json \<Rightarrow> error option \<times> run_state" where
  "run_loop env seen_ids hist =
     deliver_loop env (sort_reverse published (unseen_of env seen_ids))
       \<lparr> seen = seen_ids, history = hist, count_sent = 0,
         trace = fetch_output (rss_feeds env) \<rparr>"

text \<open>
  A run from what is at the path of the state file: the exception it ends with, if any,
  what it leaves at the path, and its effects in order.
\<close>

record outcome =
  raised :: "error option"
  disk_after :: disk
  effects :: "effect list"

definition run_rss_to_telegram :: "env \<Rightarrow> disk \<Rightarrow> outcome" where
  "run_rss_to_telegram env d =
     (case load_state d of
        Inl e \<Rightarrow> \<lparr> raised = Some e, disk_after = d, effects = [] \<rparr>
      | Inr state \<Rightarrow>
          (case read_state state of
             Inl e \<Rightarrow> \<lparr> raised = Some e, disk_after = d, effects = [] \<rparr>
           | Inr (kvs, seen_ids, hist) \<Rightarrow>
               if unseen_of env seen_ids = []
               then \<lparr> raised = None, disk_after = d,
                      effects = fetch_output (rss_feeds env) @ [Print ''No new articles.''] \<rparr>
               else (case run_loop env seen_ids hist of
                       (Some e, st) \<Rightarrow> \<lparr> raised = Some e, disk_after = d, effects = trace st \<rparr>
                     | (None, st) \<Rightarrow>
                         let state' = JObj (dict_set (dict_set kvs ''seen_ids'' (JArr (seen st)))
                                              ''articles'' (history st))
                         in if writable env
                            then \<lparr> raised = None, disk_after = Json state',
                                   effects = trace st @
                                     [Save state',
                                      Print (''Done. Sent '' @ str_nat (count_sent st)
                                             @ '' messages.'')] \<rparr>
                            else \<lparr> raised = Some OSError, disk_after = d,
                                   effects = trace st \<rparr>)))"

section \<open>What a run delivers\<close>

text \<open>
  The entries the loop is to run its body for: it walks the unseen entries, greatest
  \<open>published\<close> first, and leaves at the entry where \<open>count_sent\<close> has reached the cap.
\<close>

definition delivered :: "env \<Rightarrow> json list \<Rightarrow> article list" where
  "delivered env seen_ids =
     take (nat (max_messages env)) (sort_reverse published (unseen_of env seen_ids))"





text \<open>The ids a set has after the ids of the entries \<open>ds\<close> were added in turn.\<close>

definition add_ids :: "json list \<Rightarrow> article list \<Rightarrow> json list" where
  "add_ids seen_ids ds = foldl (\<lambda>s a. set_add (JStr (entry_id a)) s) seen_ids ds"

section \<open>Example inputs\<close>

definition spaced :: string where
  "spaced = ''ab   cd''"

definition cat_entry :: article where
  "cat_entry =
     \<lparr> entry_id = ''2'', title = ''Cats are wonderful pets'', link = ''http://x/2'',
       summary = ''Cats are great pets. They purr.'', published = ''2024-01-02'' \<rparr>"

definition cat_record :: hist_record where
  "cat_record =
     \<lparr> entry_id = ''1'', title = ''Cats are great'', link = [],
       summary = ''Cats are great. They purr.'', published = ''2024-01-01'',
       sent_at = ''2024-01-01T00:00:00'' \<rparr>"

definition untitled_record :: hist_record where
  "untitled_record = cat_record\<lparr> title := [] \<rparr>"

definition long_record :: hist_record where
  "long_record = cat_record\<lparr> title := replicate 350 (CHR ''x'') \<rparr>"

definition purr_entry :: article where
  "purr_entry =
     \<lparr> entry_id = ''9'', title = ''cat'', link = [], summary = ''Cats purr.'',
       published = ''2024-01-09'' \<rparr>"

definition dog_record :: hist_record where
  "dog_record =
     \<lparr> entry_id = ''5'', title = ''dog'', link = [], summary = ''Woof'',
       published = ''2024-01-05'', sent_at = ''T5'' \<rparr>"

definition cats_record :: hist_record where
  "cats_record = dog_record\<lparr> entry_id := ''6'', title := ''Cats'', summary := ''x'' \<rparr>"

definition top_record :: hist_record where
  "top_record = dog_record\<lparr> entry_id := ''7'', title := ''cat'', summary := ''purr'' \<rparr>"

definition purr_record :: hist_record where
  "purr_record = dog_record\<lparr> entry_id := ''8'', title := ''purr'', summary := ''y'' \<rparr>"

definition purr_history :: "hist_record list" where
  "purr_history = [dog_record, cats_record, top_record, purr_record]"

definition entry_a :: raw_entry where
  "entry_a =
     \<lparr> raw_id = Some ''a'', raw_link = None, raw_title = Some ''A'',
       raw_published = Some ''2024-01-01'', raw_summary = Some ''Cats purr.'',
       raw_description = None \<rparr>"

definition entry_b :: raw_entry where
  "entry_b = entry_a\<lparr> raw_id := Some ''b'', raw_title := Some ''B'',
       raw_published := Some ''2024-01-03'', raw_summary := Some ''Dogs bark.'' \<rparr>"

definition entry_c :: raw_entry where
  "entry_c = entry_a\<lparr> raw_id := Some ''c'', raw_title := Some ''C'',
       raw_published := Some ''2024-01-02'', raw_summary := Some ''Cats nap.'' \<rparr>"

text \<open>An entry with the id of \<open>entry_a\<close>, as when two feeds carry one item.\<close>

definition entry_a_again :: raw_entry where
  "entry_a_again = entry_a\<lparr> raw_title := Some ''A2'', raw_published := Some ''2024-01-04'' \<rparr>"

definition always_ok :: "nat \<Rightarrow> string \<Rightarrow> post_result" where
  "always_ok k msg = Post_returns (Response True ''ok'')"

definition always_fails :: "nat \<Rightarrow> string \<Rightarrow> post_result" where
  "always_fails k msg = Post_returns (Response False ''Forbidden'')"


definition clock :: "nat \<Rightarrow> string" where
  "clock k = ''T'' @ str_nat k"


definition fail_env :: env where
  "fail_env =
     \<lparr> rss_feeds = [(''u'', [entry_a])], max_messages = 5, telegram = always_fails,
       utcnow = clock, writable = True \<rparr>"

definition three_env :: env where
  "three_env =
     \<lparr> rss_feeds = [(''u'', [entry_a, entry_b, entry_c])], max_messages = 2,
       telegram = always_ok, utcnow = clock,
       writable = True \<rparr>"



definition shared_id_env :: env where
  "shared_id_env = three_env\<lparr> rss_feeds := [(''u'', [entry_a, entry_b]), (''v'', [entry_a_again])] \<rparr>"

definition twice_env :: env where
  "twice_env = fail_env\<lparr> rss_feeds := [(''u'', [entry_a]), (''v'', [entry_a])] \<rparr>"


definition record_a :: json where
  "record_a =
     JObj [(''id'', JStr ''a''), (''title'', JStr ''A''), (''summary'', JStr ''Cats purr.''),
           (''link'', JStr []), (''published'', JStr ''2024-01-01''), (''sent_at'', JStr ''T0'')]"

definition message_a :: string where
  "message_a = ''Title: A'' @ newline @ newline @ ''Summary: Cats purr.''"

definition sending :: "string \<Rightarrow> effect" where
  "sending m = Print (''Sending:'' @ newline @ '' '' @ m @ '' '' @ newline @ ''---'')"

definition fail_outcome :: "(string \<times> json) list \<Rightarrow> outcome" where
  "fail_outcome kvs =
     \<lparr> raised = None,
       disk_after = Json (JObj (kvs @ [(''seen_ids'', JArr [JStr ''a'']), (''articles'', JArr [record_a])])),
       effects = [Print ''Fetching: u'', sending message_a, Post message_a,
                  Print ''Failed to send message: Forbidden'',
                  Save (JObj (kvs @ [(''seen_ids'', JArr [JStr ''a'']), (''articles'', JArr [record_a])])),
                  Print ''Done. Sent 1 messages.''] \<rparr>"



section \<open>Properties of the similarity\<close>

lemma finite_text_to_tokens: "finite (text_to_tokens t)"
  by (simp add: text_to_tokens_def)

lemma card_inter_twice:
  assumes "finite A" and "finite B"
  shows "2 * card (A \<inter> B) \<le> card A + card B"
proof -
  have "card (A \<inter> B) \<le> card A"
    using assms by (simp add: card_mono)
  moreover have "card (A \<inter> B) \<le> card B"
    using assms by (simp add: card_mono)
  ultimately show ?thesis by linarith
qed

lemma quotient_le_half:
  fixes i n :: nat
  assumes "0 < n" and "2 * i \<le> n"
  shows "real i / real n \<le> 1 / 2"
proof -
  have "real (2 * i) \<le> real n"
    using assms(2) by (simp only: of_nat_le_iff)
  then have "2 * real i \<le> real n"
    by simp
  moreover have "0 < real n"
    using assms(1) by simp
  ultimately show ?thesis
    by (simp add: pos_divide_le_eq)
qed

lemma simple_similarity_nonneg: "0 \<le> simple_similarity a b"
  by (simp add: simple_similarity_def Let_def)

lemma simple_similarity_le_half: "simple_similarity a b \<le> 1 / 2"
proof (cases "text_to_tokens a = {} \<or> text_to_tokens b = {}")
  case True
  then show ?thesis by (auto simp: simple_similarity_def Let_def)
next
  case False
  let ?A = "text_to_tokens a" and ?B = "text_to_tokens b"
  have pos: "0 < card ?A + card ?B"
    using False by (simp add: finite_text_to_tokens card_gt_0_iff)
  have "2 * card (?A \<inter> ?B) \<le> card ?A + card ?B"
    by (rule card_inter_twice) (rule finite_text_to_tokens)+
  then have "real (card (?A \<inter> ?B)) / real (card ?A + card ?B) \<le> 1 / 2"
    using pos by (rule quotient_le_half [rotated])
  then show ?thesis
    using False by (simp add: simple_similarity_def Let_def)
qed

lemma simple_similarity_commute: "simple_similarity a b = simple_similarity b a"
  by (simp add: simple_similarity_def Let_def Int_commute add.commute disj_commute)

text \<open>
  C4. The similarity of two texts does not depend on their order, it lies between 0
  and 1, and it is 0 as soon as one of the texts has no token.
\<close>

theorem similarity_symmetric_bounded:
  "simple_similarity a b = simple_similarity b a
   \<and> 0 \<le> simple_similarity a b \<and> simple_similarity a b \<le> 1
   \<and> (text_to_tokens a = {} \<or> text_to_tokens b = {} \<longrightarrow> simple_similarity a b = 0)"
proof -
  have "simple_similarity a b \<le> 1"
    using simple_similarity_le_half [of a b] by linarith
  moreover have "text_to_tokens a = {} \<or> text_to_tokens b = {} \<longrightarrow> simple_similarity a b = 0"
    by (simp add: simple_similarity_def Let_def)
  ultimately show ?thesis
    using simple_similarity_commute [of a b] simple_similarity_nonneg [of a b] by blast
qed

theorem similarity_symmetric_bounded_witness:
  "text_to_tokens ''?!'' = {}
   \<and> simple_similarity ''?!'' ''Cats purr'' = 0
   \<and> simple_similarity ''Cats purr'' ''cats'' = simple_similarity ''cats'' ''Cats purr''
   \<and> simple_similarity ''Cats purr'' ''cats'' \<le> 1"
proof -
  have empty: "text_to_tokens ''?!'' = {}"
    by code_simp
  show ?thesis
    using empty similarity_symmetric_bounded [of "''?!''" "''Cats purr''"]
      similarity_symmetric_bounded [of "''Cats purr''" "''cats''"]
    by simp
qed

text \<open>
  C10. The similarity of two texts never exceeds one half: the common tokens are at most
  as many as the tokens of either text, hence at most half of the sum of the two counts.
  Two texts with the same tokens reach one half.
\<close>

theorem similarity_at_most_half:
  "0 \<le> simple_similarity a b \<and> simple_similarity a b \<le> 1 / 2"
  using simple_similarity_nonneg [of a b] simple_similarity_le_half [of a b] by simp

theorem similarity_at_most_half_witness:
  "simple_similarity ''Cats purr'' ''cats PURR'' = 1 / 2
   \<and> simple_similarity ''Cats purr'' ''cats PURR'' \<le> 1 / 2"
proof -
  have "simple_similarity ''Cats purr'' ''cats PURR'' = 1 / 2"
    by code_simp
  then show ?thesis
    using similarity_at_most_half [of "''Cats purr''" "''cats PURR''"] by simp
qed

section \<open>Properties of the summaries\<close>

lemma length_rstrip_le: "length (rstrip s) \<le> length s"
  using length_dropWhile_le [of is_space "rev s"] by (simp add: rstrip_def)

lemma rstrip_no_trailing_space:
  assumes "s = [] \<or> \<not> is_space (last s)"
  shows "rstrip s = s"
proof (cases s rule: rev_cases)
  case Nil
  then show ?thesis by (simp add: rstrip_def)
next
  case (snoc ys y)
  with assms have "\<not> is_space y" by simp
  with snoc show ?thesis by (simp add: rstrip_def)
qed

lemma slice_to_nonneg: "0 \<le> n \<Longrightarrow> slice_to n xs = take (nat n) xs"
  by (simp add: slice_to_def)

lemma first_sentences_Nil: "first_sentences [] = []"
  by (simp add: first_sentences_def strip_def rstrip_def split_sentences_def)

lemma summarize_text_cases:
  assumes "0 \<le> n"
  shows "summarize_text t n =
     (if int (length (first_sentences t)) > n
      then rstrip (slice_to n (first_sentences t)) @ ''...''
      else first_sentences t)"
proof (cases "t = []")
  case True
  then show ?thesis
    using assms by (simp add: summarize_text_def first_sentences_Nil)
next
  case False
  then show ?thesis by (simp add: summarize_text_def Let_def)
qed


text \<open>
  C3 (as the code has it). For \<open>max_chars = n \<ge> 0\<close> the summary has at most \<open>n + 3\<close>
  characters. When the first three sentences, joined, are longer than \<open>n\<close>, the summary
  is their first \<open>n\<close> characters with the trailing whitespace stripped, followed by
  \<open>...\<close>: the part before the dots has at most \<open>n\<close> characters, and exactly \<open>n\<close> when
  the \<open>n\<close>-th character is not whitespace. Otherwise the summary is the joined
  sentences, unchanged.
\<close>

theorem summarize_text_length:
  assumes "0 \<le> n"
  shows "length (summarize_text t n) \<le> nat n + 3
     \<and> (int (length (first_sentences t)) > n \<longrightarrow>
          summarize_text t n = rstrip (take (nat n) (first_sentences t)) @ ''...''
          \<and> length (rstrip (take (nat n) (first_sentences t))) \<le> nat n
          \<and> (n = 0 \<or> \<not> is_space (first_sentences t ! (nat n - 1)) \<longrightarrow>
               length (rstrip (take (nat n) (first_sentences t))) = nat n))
     \<and> (int (length (first_sentences t)) \<le> n \<longrightarrow> summarize_text t n = first_sentences t)"
proof -
  let ?s = "first_sentences t"
  let ?cut = "rstrip (take (nat n) ?s)"
  have cut_le: "length ?cut \<le> nat n"
    using length_rstrip_le [of "take (nat n) ?s"] by simp
  have cut_eq: "length ?cut = nat n"
    if long: "int (length ?s) > n" and last: "n = 0 \<or> \<not> is_space (?s ! (nat n - 1))"
  proof (cases "n = 0")
    case True
    then show ?thesis by (simp add: rstrip_def)
  next
    case False
    with assms have pos: "0 < nat n" by simp
    from long assms have len: "nat n \<le> length ?s" by linarith
    with pos have ne: "take (nat n) ?s \<noteq> []" by auto
    have "last (take (nat n) ?s) = ?s ! (nat n - 1)"
      using ne len pos by (simp add: last_conv_nth min_absorb2)
    with last False have "\<not> is_space (last (take (nat n) ?s))" by simp
    then have "?cut = take (nat n) ?s"
      by (simp add: rstrip_no_trailing_space)
    with len show ?thesis by simp
  qed
  have long: "summarize_text t n = ?cut @ ''...''" if "int (length ?s) > n"
    using that assms by (simp add: summarize_text_cases slice_to_nonneg)
  have short: "summarize_text t n = ?s" if "int (length ?s) \<le> n"
    using that assms by (simp add: summarize_text_cases)
  have "length (summarize_text t n) \<le> nat n + 3"
  proof (cases "int (length ?s) > n")
    case True
    with long cut_le show ?thesis by simp
  next
    case False
    with short have "summarize_text t n = ?s" by simp
    moreover from False have "length ?s \<le> nat n" by linarith
    ultimately show ?thesis by simp
  qed
  with long short cut_le cut_eq show ?thesis by blast
qed

theorem summarize_text_length_witness:
  "(0::int) \<le> 4 \<and> int (length (first_sentences spaced)) > 4
   \<and> length (summarize_text spaced 4) \<le> 7
   \<and> summarize_text spaced 4 = rstrip (take 4 (first_sentences spaced)) @ ''...''
   \<and> \<not> is_space (first_sentences spaced ! 5)
   \<and> length (rstrip (take 6 (first_sentences spaced))) = 6"
proof -
  have long: "int (length (first_sentences spaced)) > 4"
    by code_simp
  have sp: "\<not> is_space (first_sentences spaced ! 5)"
    by code_simp
  have long6: "int (length (first_sentences spaced)) > 6"
    by code_simp
  show ?thesis
    using long sp long6 summarize_text_length [of 4 spaced] summarize_text_length [of 6 spaced]
    by simp
qed

text \<open>
  The part before the dots can be shorter than \<open>max_chars\<close>: cut at 4, the text
  \<open>ab   cd\<close> keeps two characters.
\<close>

theorem summarize_text_below_max_chars:
  "int (length (first_sentences spaced)) > 4
   \<and> summarize_text spaced 4 = ''ab'' @ ''...''
   \<and> length ''ab'' < (4::nat)"
  by code_simp

lemma compose_summary_cases:
  "compose_summary a ctx =
     (if ctx \<noteq> [] \<and> rel_titles ctx \<noteq> []
         \<and> length (summarize_text (summary a) 300) + length (related_to ctx) + 3 < 350
      then summarize_text (summary a) 300 @ '' | '' @ related_to ctx
      else summarize_text (summary a) 300)"
  by (simp add: compose_summary_def Let_def)

text \<open>
  C6. The composed summary is never longer than the base summary plus 353 characters. It
  is the base summary itself when the context is empty, when no record of the context has
  a title, and when base, suffix and separator do not stay under 350 characters;
  otherwise it is the base summary, the separator and the suffix.
\<close>

theorem compose_summary_bound:
  "length (compose_summary a ctx) \<le> length (summarize_text (summary a) 300) + 353
   \<and> (ctx = [] \<longrightarrow> compose_summary a ctx = summarize_text (summary a) 300)
   \<and> (rel_titles ctx = [] \<longrightarrow> compose_summary a ctx = summarize_text (summary a) 300)
   \<and> (\<not> length (summarize_text (summary a) 300) + length (related_to ctx) + 3 < 350 \<longrightarrow>
        compose_summary a ctx = summarize_text (summary a) 300)
   \<and> (ctx \<noteq> [] \<and> rel_titles ctx \<noteq> []
        \<and> length (summarize_text (summary a) 300) + length (related_to ctx) + 3 < 350 \<longrightarrow>
        compose_summary a ctx = summarize_text (summary a) 300 @ '' | '' @ related_to ctx)"
proof -
  let ?base = "summarize_text (summary a) 300"
  let ?fits = "ctx \<noteq> [] \<and> rel_titles ctx \<noteq> [] \<and> length ?base + length (related_to ctx) + 3 < 350"
  have "length (compose_summary a ctx) \<le> length ?base + 353"
  proof (cases ?fits)
    case True
    then have "compose_summary a ctx = ?base @ '' | '' @ related_to ctx"
      by (simp add: compose_summary_cases)
    then have "length (compose_summary a ctx) = length ?base + length (related_to ctx) + 3"
      by simp
    with True show ?thesis by linarith
  next
    case False
    then have "compose_summary a ctx = ?base"
      by (simp only: compose_summary_cases if_False)
    then show ?thesis by simp
  qed
  then show ?thesis
    by (simp add: compose_summary_cases)
qed

theorem compose_summary_bound_witness:
  "compose_summary cat_entry ([] :: hist_record list) = summarize_text (summary cat_entry) 300
   \<and> rel_titles [untitled_record] = []
   \<and> compose_summary cat_entry [untitled_record] = summarize_text (summary cat_entry) 300
   \<and> \<not> length (summarize_text (summary cat_entry) 300) + length (related_to [long_record]) + 3 < 350
   \<and> compose_summary cat_entry [long_record] = summarize_text (summary cat_entry) 300
   \<and> compose_summary cat_entry [cat_record]
       = ''Cats are great pets. They purr. | Related to: Cats are great''
   \<and> length (compose_summary cat_entry [cat_record])
       \<le> length (summarize_text (summary cat_entry) 300) + 353"
proof -
  have untitled: "rel_titles [untitled_record] = []"
    by code_simp
  have budget:
    "\<not> length (summarize_text (summary cat_entry) 300) + length (related_to [long_record]) + 3 < 350"
    by code_simp
  have related: "summarize_text (summary cat_entry) 300 @ '' | '' @ related_to [cat_record]
      = ''Cats are great pets. They purr. | Related to: Cats are great''"
    by code_simp
  have fits: "[cat_record] \<noteq> [] \<and> rel_titles [cat_record] \<noteq> []
      \<and> length (summarize_text (summary cat_entry) 300) + length (related_to [cat_record]) + 3 < 350"
    by code_simp
  show ?thesis
    using untitled budget related fits
      compose_summary_bound [of cat_entry "[] :: hist_record list"]
      compose_summary_bound [of cat_entry "[untitled_record]"]
      compose_summary_bound [of cat_entry "[long_record]"]
      compose_summary_bound [of cat_entry "[cat_record]"]
    by simp
qed

section \<open>Properties of the ranking\<close>

lemma mset_sort_reverse: "mset (sort_reverse f xs) = mset xs"
  by (simp add: sort_reverse_def)

lemma sorted_sort_reverse: "sorted_wrt (\<lambda>a b. f a \<ge> f b) (sort_reverse f xs)"
proof -
  have "sorted_wrt (\<lambda>a b. f a \<le> f b) (sort_key f (rev xs))"
    using sorted_sort_key [of f "rev xs"] by (simp add: sorted_map)
  then show ?thesis
    by (simp add: sort_reverse_def sorted_wrt_rev)
qed

lemma sort_reverse_stable:
  "filter (\<lambda>y. f y = k) (sort_reverse f xs) = filter (\<lambda>y. f y = k) xs"
proof -
  have "filter (\<lambda>y. f y = k) (sort_reverse f xs)
          = rev (filter (\<lambda>y. f y = k) (sort_key f (rev xs)))"
    by (simp add: sort_reverse_def rev_filter)
  also have "\<dots> = rev (filter (\<lambda>y. f y = k) (rev xs))"
    by (simp only: sort_key_stable)
  also have "\<dots> = filter (\<lambda>y. f y = k) xs"
    by (simp add: rev_filter)
  finally show ?thesis .
qed

text \<open>A stable descending sort has one possible result.\<close>

lemma sort_reverse_unique:
  assumes perm: "mset ys = mset xs"
    and desc: "sorted_wrt (\<lambda>a b. f a \<ge> f b) ys"
    and stable: "\<And>k. filter (\<lambda>y. f y = k) ys = filter (\<lambda>y. f y = k) xs"
  shows "ys = sort_reverse f xs"
proof -
  have "sort_key f (rev xs) = rev ys"
  proof (rule properties_for_sort_key)
    show "mset (rev ys) = mset (rev xs)"
      using perm by simp
    show "filter (\<lambda>x. f k = f x) (rev ys) = filter (\<lambda>x. f k = f x) (rev xs)" for k
    proof -
      have "filter (\<lambda>x. f k = f x) zs = filter (\<lambda>x. f x = f k) zs" for zs
        by (rule filter_cong) auto
      then show ?thesis
        using stable [of "f k"] by (simp flip: rev_filter)
    qed
    have "sorted_wrt (\<lambda>a b. f a \<le> f b) (rev ys)"
      using desc by (simp add: sorted_wrt_rev)
    then show "sorted (map f (rev ys))"
      by (simp add: sorted_map)
  qed
  then show ?thesis
    by (simp add: sort_reverse_def)
qed

text \<open>
  C5. The scored records are sorted by score, highest first, and records of equal score
  keep the order they have in the history: the sorted list is a permutation of the scored
  one, it is descending, and for every score the records of that score come in their
  input order. No other list has these three properties, so the ranking is a function of
  the entry and the history alone. The context is the first \<open>top_k\<close> records of the
  ranking without those of score 0 or less.
\<close>

theorem select_context_ranking:
  assumes "0 \<le> top_k"
  shows "mset (ranked a hist) = mset (scores_of a hist)
     \<and> sorted_wrt (\<lambda>p q. fst p \<ge> fst q) (ranked a hist)
     \<and> (\<forall>v. filter (\<lambda>p. fst p = v) (ranked a hist)
              = filter (\<lambda>p. fst p = v) (scores_of a hist))
     \<and> (\<forall>r. mset r = mset (scores_of a hist) \<and> sorted_wrt (\<lambda>p q. fst p \<ge> fst q) r
             \<and> (\<forall>v. filter (\<lambda>p. fst p = v) r = filter (\<lambda>p. fst p = v) (scores_of a hist))
           \<longrightarrow> r = ranked a hist)
     \<and> select_context a hist top_k
         = map snd (filter (\<lambda>p. fst p > 0) (take (nat top_k) (ranked a hist)))
     \<and> length (select_context a hist top_k) \<le> nat top_k"
proof -
  have sel: "select_context a hist top_k
      = map snd (filter (\<lambda>p. fst p > 0) (take (nat top_k) (ranked a hist)))"
    using assms by (simp add: select_context_def slice_to_nonneg)
  have "length (filter (\<lambda>p. fst p > 0) (take (nat top_k) (ranked a hist)))
      \<le> length (take (nat top_k) (ranked a hist))"
    by (rule length_filter_le)
  then have len: "length (select_context a hist top_k) \<le> nat top_k"
    using sel by simp
  have uniq: "r = ranked a hist"
    if "mset r = mset (scores_of a hist)" "sorted_wrt (\<lambda>p q. fst p \<ge> fst q) r"
      "\<forall>v. filter (\<lambda>p. fst p = v) r = filter (\<lambda>p. fst p = v) (scores_of a hist)" for r
    unfolding ranked_def using that by (intro sort_reverse_unique) simp_all
  show ?thesis
    using sel len uniq
    by (simp add: ranked_def mset_sort_reverse sorted_sort_reverse sort_reverse_stable)
qed

theorem select_context_ranking_witness:
  "(0::int) \<le> 3
   \<and> map fst (scores_of purr_entry purr_history) = [0, 1 / 5, 2 / 5, 1 / 5]
   \<and> ranked purr_entry purr_history
       = [(2 / 5, top_record), (1 / 5, cats_record), (1 / 5, purr_record), (0, dog_record)]
   \<and> select_context purr_entry purr_history 3 = [top_record, cats_record, purr_record]
   \<and> select_context purr_entry purr_history 4 = [top_record, cats_record, purr_record]
   \<and> select_context purr_entry purr_history 2 = [top_record, cats_record]
   \<and> length (select_context purr_entry purr_history 3) \<le> 3"
proof -
  have scores: "scores_of purr_entry purr_history
      = [(0, dog_record), (1 / 5, cats_record), (2 / 5, top_record), (1 / 5, purr_record)]"
    by code_simp
  have rank: "ranked purr_entry purr_history
      = [(2 / 5, top_record), (1 / 5, cats_record), (1 / 5, purr_record), (0, dog_record)]"
    by (simp add: ranked_def scores sort_reverse_def)
  have three: "nat 3 = Suc (Suc (Suc 0))" and four: "nat 4 = Suc (Suc (Suc (Suc 0)))"
    and two: "nat 2 = Suc (Suc 0)"
    by simp_all
  show ?thesis
    using select_context_ranking [of 3 purr_entry purr_history]
      select_context_ranking [of 4 purr_entry purr_history]
      select_context_ranking [of 2 purr_entry purr_history]
    by (simp add: rank scores three four two)
qed

section \<open>Properties of the loop\<close>

lemma posts_append: "posts (xs @ ys) = posts xs @ posts ys"
  by (simp add: posts_def)


lemma posts_simps:
  "posts [] = []" "posts (Print x # es) = posts es" "posts (Post m # es) = m # posts es"
  "posts (Save s # es) = posts es"
  by (simp_all add: posts_def)














lemma add_ids_Cons: "add_ids s (a # ds) = add_ids (set_add (JStr (entry_id a)) s) ds"
  by (simp add: add_ids_def)

lemma add_ids_Nil: "add_ids s [] = s"
  by (simp add: add_ids_def)




section \<open>Properties of sets and dictionaries\<close>

lemma py_eq_JStr: "py_eq (JStr x) y \<longleftrightarrow> y = JStr x"
  by (cases y) (auto simp: py_eq_def)

lemma set_contains_JStr: "set_contains s (JStr x) \<longleftrightarrow> JStr x \<in> set s"
  by (auto simp: set_contains_def list_ex_iff py_eq_JStr)

lemma set_set_add: "set (set_add x s) = set s \<or> set (set_add x s) = insert x (set s)"
  by (simp add: set_add_def)

lemma set_add_mono: "set s \<subseteq> set (set_add x s)"
  by (auto simp: set_add_def)

lemma set_add_subset: "set (set_add x s) \<subseteq> insert x (set s)"
  by (auto simp: set_add_def)

lemma JStr_in_set_add: "JStr x \<in> set (set_add (JStr y) s) \<longleftrightarrow> x = y \<or> JStr x \<in> set s"
  by (auto simp: set_add_def set_contains_JStr)

lemma JStr_in_add_ids:
  "JStr x \<in> set (add_ids s ds) \<longleftrightarrow> JStr x \<in> set s \<or> x \<in> entry_id ` set ds"
  by (induction ds arbitrary: s) (auto simp: add_ids_Nil add_ids_Cons JStr_in_set_add)

lemma add_ids_mono: "set s \<subseteq> set (add_ids s ds)"
proof (induction ds arbitrary: s)
  case Nil
  then show ?case by (simp add: add_ids_Nil)
next
  case (Cons a ds)
  have "set s \<subseteq> set (set_add (JStr (entry_id a)) s)"
    by (rule set_add_mono)
  also have "\<dots> \<subseteq> set (add_ids (set_add (JStr (entry_id a)) s) ds)"
    by (rule Cons.IH)
  finally show ?case by (simp add: add_ids_Cons)
qed

lemma hashable_add_ids:
  assumes "list_all hashable s"
  shows "list_all hashable (add_ids s ds)"
  using assms
proof (induction ds arbitrary: s)
  case Nil
  then show ?case by (simp add: add_ids_Nil)
next
  case (Cons a ds)
  have "hashable (JStr (entry_id a))"
    by (simp add: hashable_def)
  then have "list_all hashable (set_add (JStr (entry_id a)) s)"
    using Cons.prems by (simp add: set_add_def)
  then show ?case
    by (simp add: add_ids_Cons Cons.IH)
qed

lemma set_foldl_set_add:
  "set (foldl (\<lambda>s x. set_add x s) acc xs) \<subseteq> set acc \<union> set xs"
proof (induction xs arbitrary: acc)
  case Nil
  then show ?case by simp
next
  case (Cons x xs)
  have "set (foldl (\<lambda>s x. set_add x s) (set_add x acc) xs) \<subseteq> set (set_add x acc) \<union> set xs"
    by (rule Cons.IH)
  also have "\<dots> \<subseteq> insert x (set acc) \<union> set xs"
    using set_add_subset [of x acc] by auto
  finally show ?case by auto
qed

lemma JStr_in_foldl_set_add:
  "JStr x \<in> set (foldl (\<lambda>s y. set_add y s) acc xs) \<longleftrightarrow> JStr x \<in> set acc \<or> JStr x \<in> set xs"
proof (induction xs arbitrary: acc)
  case Nil
  then show ?case by simp
next
  case (Cons y xs)
  have "JStr x \<in> set (set_add y acc) \<longleftrightarrow> JStr x \<in> set acc \<or> JStr x = y"
  proof (cases "set_contains acc y")
    case True
    then obtain z where z: "z \<in> set acc" "py_eq y z"
      by (auto simp: set_contains_def list_ex_iff)
    have "JStr x = y \<Longrightarrow> JStr x \<in> set acc"
      using z by (auto simp: py_eq_JStr)
    with True show ?thesis
      by (auto simp: set_add_def)
  next
    case False
    then show ?thesis by (auto simp: set_add_def)
  qed
  with Cons.IH [of "set_add y acc"] show ?case by auto
qed

lemma py_set_JArr:
  assumes "list_all hashable xs"
  shows "\<exists>ys. py_set (JArr xs) = Inr ys \<and> list_all hashable ys
      \<and> (\<forall>x. JStr x \<in> set ys \<longleftrightarrow> JStr x \<in> set xs)"
proof -
  let ?ys = "foldl (\<lambda>s x. set_add x s) [] xs"
  have "py_set (JArr xs) = Inr ?ys"
    using assms by (simp add: py_set_def iterate_def)
  moreover have "list_all hashable ?ys"
    using assms set_foldl_set_add [of "[]" xs] by (auto simp: list_all_iff)
  moreover have "\<forall>x. JStr x \<in> set ?ys \<longleftrightarrow> JStr x \<in> set xs"
    by (simp add: JStr_in_foldl_set_add)
  ultimately show ?thesis by blast
qed

lemma py_set_hashable:
  assumes "py_set v = Inr ys"
  shows "list_all hashable ys"
proof (cases "iterate v")
  case (Inl e)
  with assms show ?thesis by (simp add: py_set_def)
next
  case (Inr xs)
  with assms have h: "list_all hashable xs" and ys: "ys = foldl (\<lambda>s x. set_add x s) [] xs"
    by (auto simp: py_set_def split: if_splits)
  from h set_foldl_set_add [of "[]" xs] show ?thesis
    unfolding ys by (auto simp: list_all_iff)
qed

lemma dict_get_dict_set_same: "dict_get (dict_set kvs k v) k d = v"
  by (induction kvs) (auto simp: dict_get_def)

lemma dict_get_dict_set_other: "k' \<noteq> k \<Longrightarrow> dict_get (dict_set kvs k' v) k d = dict_get kvs k d"
  by (induction kvs) (auto simp: dict_get_def)

section \<open>Properties of reading the state\<close>

lemma read_state_Inr:
  assumes "read_state state = Inr (kvs, seen_ids, hist)"
  shows "state = JObj kvs" and "py_set (dict_get kvs ''seen_ids'' (JArr [])) = Inr seen_ids"
    and "hist = dict_get kvs ''articles'' (JArr [])" and "list_all hashable seen_ids"
proof -
  from assms show a: "state = JObj kvs"
    by (cases state) (auto simp: read_state_def split: sum.splits)
  from assms a show b: "py_set (dict_get kvs ''seen_ids'' (JArr [])) = Inr seen_ids"
    by (auto simp: read_state_def split: sum.splits)
  from assms a show "hist = dict_get kvs ''articles'' (JArr [])"
    by (auto simp: read_state_def split: sum.splits)
  from b show "list_all hashable seen_ids"
    by (rule py_set_hashable)
qed

lemma read_state_not_dict:
  assumes "\<forall>kvs. state \<noteq> JObj kvs"
  shows "read_state state = Inl AttributeError"
  using assms by (cases state) (simp_all add: read_state_def)

lemma read_state_empty: "read_state empty_state = Inr ([(''seen_ids'', JArr []), (''articles'', JArr [])], [], JArr [])"
  by (simp add: read_state_def empty_state_def dict_get_def py_set_def iterate_def)

lemma read_state_no_keys:
  assumes "map_of kvs ''seen_ids'' = None" and "map_of kvs ''articles'' = None"
  shows "read_state (JObj kvs) = Inr (kvs, [], JArr [])"
  using assms by (simp add: read_state_def dict_get_def py_set_def iterate_def)

text \<open>The state a run saves can be read again, with the same strings among the seen ids.\<close>

lemma read_state_saved:
  assumes "list_all hashable s"
  shows "\<exists>s'. read_state (JObj (dict_set (dict_set kvs ''seen_ids'' (JArr s)) ''articles'' h))
          = Inr (dict_set (dict_set kvs ''seen_ids'' (JArr s)) ''articles'' h, s', h)
      \<and> (\<forall>x. JStr x \<in> set s' \<longleftrightarrow> JStr x \<in> set s)"
proof -
  obtain s' where s': "py_set (JArr s) = Inr s'" "\<forall>x. JStr x \<in> set s' \<longleftrightarrow> JStr x \<in> set s"
    using py_set_JArr [OF assms] by blast
  have "dict_get (dict_set (dict_set kvs ''seen_ids'' (JArr s)) ''articles'' h) ''seen_ids'' (JArr [])
      = JArr s"
    by (simp add: dict_get_dict_set_other dict_get_dict_set_same)
  moreover have "dict_get (dict_set (dict_set kvs ''seen_ids'' (JArr s)) ''articles'' h) ''articles'' (JArr [])
      = h"
    by (simp add: dict_get_dict_set_same)
  ultimately show ?thesis
    using s' by (simp add: read_state_def)
qed

section \<open>Properties of a run\<close>

lemma run_load_error:
  assumes "load_state d = Inl e"
  shows "run_rss_to_telegram env d = \<lparr> raised = Some e, disk_after = d, effects = [] \<rparr>"
  using assms by (simp add: run_rss_to_telegram_def)

lemma run_read_error:
  assumes "load_state d = Inr state" and "read_state state = Inl e"
  shows "run_rss_to_telegram env d = \<lparr> raised = Some e, disk_after = d, effects = [] \<rparr>"
  using assms by (simp add: run_rss_to_telegram_def)

lemma run_nothing_unseen:
  assumes "load_state d = Inr state" and "read_state state = Inr (kvs, seen_ids, hist)"
    and "unseen_of env seen_ids = []"
  shows "run_rss_to_telegram env d
           = \<lparr> raised = None, disk_after = d,
               effects = fetch_output (rss_feeds env) @ [Print ''No new articles.''] \<rparr>"
  using assms by (simp add: run_rss_to_telegram_def)

lemma run_loop_raised:
  assumes "load_state d = Inr state" and "read_state state = Inr (kvs, seen_ids, hist)"
    and "unseen_of env seen_ids \<noteq> []" and "run_loop env seen_ids hist = (Some e, st)"
  shows "run_rss_to_telegram env d = \<lparr> raised = Some e, disk_after = d, effects = trace st \<rparr>"
  using assms by (simp add: run_rss_to_telegram_def)

lemma run_loop_unwritable:
  assumes "load_state d = Inr state" and "read_state state = Inr (kvs, seen_ids, hist)"
    and "unseen_of env seen_ids \<noteq> []" and "run_loop env seen_ids hist = (None, st)"
    and "\<not> writable env"
  shows "run_rss_to_telegram env d
           = \<lparr> raised = Some OSError, disk_after = d, effects = trace st \<rparr>"
  using assms by (simp add: run_rss_to_telegram_def Let_def)

lemma run_loop_returned:
  assumes "load_state d = Inr state" and "read_state state = Inr (kvs, seen_ids, hist)"
    and "unseen_of env seen_ids \<noteq> []" and "run_loop env seen_ids hist = (None, st)"
    and "writable env"
  shows "run_rss_to_telegram env d
           = \<lparr> raised = None,
               disk_after = Json (JObj (dict_set (dict_set kvs ''seen_ids'' (JArr (seen st)))
                                          ''articles'' (history st))),
               effects = trace st @
                 [Save (JObj (dict_set (dict_set kvs ''seen_ids'' (JArr (seen st)))
                                ''articles'' (history st))),
                  Print (''Done. Sent '' @ str_nat (count_sent st) @ '' messages.'')] \<rparr>"
  using assms by (simp add: run_rss_to_telegram_def Let_def)


lemma length_sort_reverse: "length (sort_reverse f xs) = length xs"
  by (simp add: sort_reverse_def)

lemma set_sort_reverse: "set (sort_reverse f xs) = set xs"
  by (simp add: sort_reverse_def)


lemma length_delivered:
  "length (delivered env seen_ids) = min (nat (max_messages env)) (length (unseen_of env seen_ids))"
  by (simp add: delivered_def length_sort_reverse min.commute)








section \<open>When a run ends without an exception\<close>








section \<open>The records of a run are determined\<close>







section \<open>The state file of a run\<close>

lemma dict_set_absent: "map_of kvs k = None \<Longrightarrow> dict_set kvs k v = kvs @ [(k, v)]"
  by (induction kvs) (auto split: if_splits)

lemma dict_set_fresh_keys:
  assumes "map_of kvs ''seen_ids'' = None" and "map_of kvs ''articles'' = None"
  shows "dict_set (dict_set kvs ''seen_ids'' s) ''articles'' h
           = kvs @ [(''seen_ids'', s), (''articles'', h)]"
proof -
  have "map_of (kvs @ [(''seen_ids'', s)]) ''articles'' = None"
    using assms(2) by (simp add: map_add_def split: option.splits)
  then show ?thesis
    using assms(1) by (simp add: dict_set_absent)
qed

text \<open>
  A run from a dictionary without the two keys of a ledger goes as the run from no file,
  and adds the keys to what the file held.
\<close>

lemma run_no_keys:
  assumes "map_of kvs ''seen_ids'' = None" and "map_of kvs ''articles'' = None"
  shows "raised (run_rss_to_telegram env (Json (JObj kvs))) = raised (run_rss_to_telegram env Absent)"
    and "posts (effects (run_rss_to_telegram env (Json (JObj kvs))))
           = posts (effects (run_rss_to_telegram env Absent))"
    and "disk_after (run_rss_to_telegram env Absent) = Json (JObj led) \<Longrightarrow>
         disk_after (run_rss_to_telegram env (Json (JObj kvs))) = Json (JObj (kvs @ led))"
    and "disk_after (run_rss_to_telegram env Absent) = Absent \<Longrightarrow>
         disk_after (run_rss_to_telegram env (Json (JObj kvs))) = Json (JObj kvs)"
proof -
  let ?A = "run_rss_to_telegram env Absent" and ?J = "run_rss_to_telegram env (Json (JObj kvs))"
  let ?led = "[(''seen_ids'', JArr []), (''articles'', JArr [])]"
  have la: "load_state Absent = Inr empty_state" and lj: "load_state (Json (JObj kvs)) = Inr (JObj kvs)"
    by simp_all
  note ra = read_state_empty
  note rj = read_state_no_keys [OF assms]
  have "raised ?J = raised ?A \<and> posts (effects ?J) = posts (effects ?A)
      \<and> (disk_after ?A = Json (JObj led) \<longrightarrow> disk_after ?J = Json (JObj (kvs @ led)))
      \<and> (disk_after ?A = Absent \<longrightarrow> disk_after ?J = Json (JObj kvs))"
  proof (cases "unseen_of env [] = []")
    case True
    show ?thesis
      by (simp add: run_nothing_unseen [OF la ra True] run_nothing_unseen [OF lj rj True])
  next
    case False
    obtain r st where loop: "run_loop env [] (JArr []) = (r, st)"
      by (cases "run_loop env [] (JArr [])")
    show ?thesis
    proof (cases r)
      case (Some e)
      note loop = loop [unfolded Some]
      show ?thesis
        by (simp add: run_loop_raised [OF la ra False loop] run_loop_raised [OF lj rj False loop])
    next
      case None
      note loop = loop [unfolded None]
      show ?thesis
      proof (cases "writable env")
        case True
        show ?thesis
          by (simp add: run_loop_returned [OF la ra False loop True]
              run_loop_returned [OF lj rj False loop True] dict_set_fresh_keys [OF assms]
              posts_append posts_simps)
      next
        case w: False
        show ?thesis
          by (simp add: run_loop_unwritable [OF la ra False loop w]
              run_loop_unwritable [OF lj rj False loop w])
      qed
    qed
  qed
  then show "raised ?J = raised ?A" and "posts (effects ?J) = posts (effects ?A)"
    and "disk_after ?A = Json (JObj led) \<Longrightarrow> disk_after ?J = Json (JObj (kvs @ led))"
    and "disk_after ?A = Absent \<Longrightarrow> disk_after ?J = Json (JObj kvs)"
    by simp_all
qed

text \<open>
  C9 (as the code has it). \<open>load_state\<close> returns the empty ledger when there is no state
  file, and also when the file stores the empty ledger. It raises exactly when the file
  cannot be opened (\<open>OSError\<close>), is not UTF-8 (\<open>UnicodeDecodeError\<close>) or is not JSON
  (\<open>JSONDecodeError\<close>), and the run then ends with that exception before any effect and
  leaves the file. Whatever parses as JSON is returned as it is, ledger or not. A run from
  a value that is not a dictionary ends with \<open>AttributeError\<close> before any effect; a run
  from a dictionary with neither \<open>seen_ids\<close> nor \<open>articles\<close> ends and posts as the run from
  no file does, and where that run writes a ledger, this one writes what the file held
  with the keys of that ledger added.
\<close>

theorem state_file_cases:
  "(load_state d = Inr empty_state \<longleftrightarrow> d = Absent \<or> d = Json empty_state)
   \<and> (load_state d = Inl e \<longleftrightarrow>
        d = Unopenable \<and> e = OSError \<or> d = Undecodable \<and> e = UnicodeDecodeError
        \<or> d = Not_json \<and> e = JSONDecodeError)
   \<and> (load_state d = Inl e \<longrightarrow>
        run_rss_to_telegram env d = \<lparr> raised = Some e, disk_after = d, effects = [] \<rparr>)
   \<and> load_state (Json v) = Inr v
   \<and> ((\<forall>kvs. v \<noteq> JObj kvs) \<longrightarrow>
        run_rss_to_telegram env (Json v)
          = \<lparr> raised = Some AttributeError, disk_after = Json v, effects = [] \<rparr>)
   \<and> (map_of kvs ''seen_ids'' = None \<and> map_of kvs ''articles'' = None \<longrightarrow>
        raised (run_rss_to_telegram env (Json (JObj kvs))) = raised (run_rss_to_telegram env Absent)
        \<and> posts (effects (run_rss_to_telegram env (Json (JObj kvs))))
            = posts (effects (run_rss_to_telegram env Absent))
        \<and> (\<forall>led. disk_after (run_rss_to_telegram env Absent) = Json (JObj led) \<longrightarrow>
               disk_after (run_rss_to_telegram env (Json (JObj kvs))) = Json (JObj (kvs @ led)))
        \<and> (disk_after (run_rss_to_telegram env Absent) = Absent \<longrightarrow>
               disk_after (run_rss_to_telegram env (Json (JObj kvs))) = Json (JObj kvs)))"
proof (intro conjI impI allI)
  show "load_state d = Inr empty_state \<longleftrightarrow> d = Absent \<or> d = Json empty_state"
    by (cases d) simp_all
  show "load_state d = Inl e \<longleftrightarrow>
        d = Unopenable \<and> e = OSError \<or> d = Undecodable \<and> e = UnicodeDecodeError
        \<or> d = Not_json \<and> e = JSONDecodeError"
    by (cases d) auto
  show "run_rss_to_telegram env d = \<lparr> raised = Some e, disk_after = d, effects = [] \<rparr>"
    if "load_state d = Inl e"
    using that by (rule run_load_error)
  show "load_state (Json v) = Inr v"
    by simp
  show "run_rss_to_telegram env (Json v)
          = \<lparr> raised = Some AttributeError, disk_after = Json v, effects = [] \<rparr>"
    if "\<forall>kvs. v \<noteq> JObj kvs"
  proof -
    have "load_state (Json v) = Inr v" by simp
    moreover have "read_state v = Inl AttributeError"
      using that by (rule read_state_not_dict)
    ultimately show ?thesis by (rule run_read_error)
  qed
next
  assume k: "map_of kvs ''seen_ids'' = None \<and> map_of kvs ''articles'' = None"
  then have k1: "map_of kvs ''seen_ids'' = None" and k2: "map_of kvs ''articles'' = None"
    by simp_all
  show "raised (run_rss_to_telegram env (Json (JObj kvs))) = raised (run_rss_to_telegram env Absent)"
    by (rule run_no_keys(1) [OF k1 k2])
  show "posts (effects (run_rss_to_telegram env (Json (JObj kvs))))
            = posts (effects (run_rss_to_telegram env Absent))"
    by (rule run_no_keys(2) [OF k1 k2])
  show "disk_after (run_rss_to_telegram env (Json (JObj kvs))) = Json (JObj (kvs @ led))"
    if "disk_after (run_rss_to_telegram env Absent) = Json (JObj led)" for led
    using k1 k2 that by (rule run_no_keys(3))
  show "disk_after (run_rss_to_telegram env (Json (JObj kvs))) = Json (JObj kvs)"
    if "disk_after (run_rss_to_telegram env Absent) = Absent"
    using k1 k2 that by (rule run_no_keys(4))
qed

lemma fail_env_run: "run_rss_to_telegram fail_env Absent = fail_outcome []"
  by code_simp

theorem state_file_cases_witness:
  "run_rss_to_telegram fail_env Not_json
     = \<lparr> raised = Some JSONDecodeError, disk_after = Not_json, effects = [] \<rparr>
   \<and> run_rss_to_telegram fail_env (Json (JArr []))
     = \<lparr> raised = Some AttributeError, disk_after = Json (JArr []), effects = [] \<rparr>
   \<and> disk_after (run_rss_to_telegram fail_env (Json (JObj [(''n'', JInt 1)])))
     = Json (JObj [(''n'', JInt 1), (''seen_ids'', JArr [JStr ''a'']), (''articles'', JArr [record_a])])
   \<and> posts (effects (run_rss_to_telegram fail_env (Json (JObj [(''n'', JInt 1)])))) = [message_a]
   \<and> raised (run_rss_to_telegram fail_env (Json (JObj [(''n'', JInt 1)]))) = None"
  using state_file_cases [where d = Not_json and e = JSONDecodeError and env = fail_env
      and v = "JArr []" and kvs = "[(''n'', JInt 1)]"]
  by (simp add: fail_env_run fail_outcome_def posts_simps sending_def)

text \<open>
  A state file that is there and holds the empty ledger loads as the empty ledger. A
  state file that holds \<open>{}\<close> loads without an exception, and the run writes a new
  ledger over it; one whose \<open>seen_ids\<close> is the string \<open>"ab"\<close> loads too, and the run takes
  \<open>a\<close> and \<open>b\<close> for the ids seen.
\<close>

theorem state_file_not_a_ledger:
  "load_state (Json empty_state) = Inr empty_state
   \<and> load_state (Json (JObj [])) = Inr (JObj [])
   \<and> run_rss_to_telegram fail_env (Json (JObj [])) = fail_outcome []
   \<and> run_rss_to_telegram fail_env (Json (JObj [(''seen_ids'', JStr ''ab'')]))
       = \<lparr> raised = None, disk_after = Json (JObj [(''seen_ids'', JStr ''ab'')]),
           effects = [Print ''Fetching: u'', Print ''No new articles.''] \<rparr>"
  by code_simp









section \<open>What the answer of the API changes\<close>






end
